theory Spec2Isabelle
  imports Main
begin

section \<open>Shallow embedding of \<open>sw_utils/consensus.py\<close>\<close>

subsection \<open>Validator statuses\<close>

text \<open>The enumeration \<open>ValidatorStatus\<close> and the value of each member.\<close>

datatype ValidatorStatus =
    PENDING_INITIALIZED
  | PENDING_QUEUED
  | ACTIVE_ONGOING
  | ACTIVE_EXITING
  | ACTIVE_SLASHED
  | EXITED_UNSLASHED
  | EXITED_SLASHED
  | WITHDRAWAL_POSSIBLE
  | WITHDRAWAL_DONE

fun status_value :: "ValidatorStatus \<Rightarrow> string" where
  "status_value PENDING_INITIALIZED = ''pending_initialized''"
| "status_value PENDING_QUEUED = ''pending_queued''"
| "status_value ACTIVE_ONGOING = ''active_ongoing''"
| "status_value ACTIVE_EXITING = ''active_exiting''"
| "status_value ACTIVE_SLASHED = ''active_slashed''"
| "status_value EXITED_UNSLASHED = ''exited_unslashed''"
| "status_value EXITED_SLASHED = ''exited_slashed''"
| "status_value WITHDRAWAL_POSSIBLE = ''withdrawal_possible''"
| "status_value WITHDRAWAL_DONE = ''withdrawal_done''"

text \<open>The members in definition order, as iterating over the enumeration yields them.\<close>

definition ValidatorStatus_members :: "ValidatorStatus list" where
  "ValidatorStatus_members =
     [PENDING_INITIALIZED, PENDING_QUEUED, ACTIVE_ONGOING, ACTIVE_EXITING, ACTIVE_SLASHED,
      EXITED_UNSLASHED, EXITED_SLASHED, WITHDRAWAL_POSSIBLE, WITHDRAWAL_DONE]"

definition PENDING_STATUSES :: "ValidatorStatus list" where
  "PENDING_STATUSES = [PENDING_INITIALIZED, PENDING_QUEUED]"

definition ACTIVE_STATUSES :: "ValidatorStatus list" where
  "ACTIVE_STATUSES = [ACTIVE_ONGOING, ACTIVE_EXITING, ACTIVE_SLASHED]"

definition EXITED_STATUSES :: "ValidatorStatus list" where
  "EXITED_STATUSES =
     [EXITED_UNSLASHED, EXITED_SLASHED, WITHDRAWAL_POSSIBLE, WITHDRAWAL_DONE]"

subsection \<open>Values exchanged with the beacon node\<close>

text \<open>JSON documents; a dict is an association list in insertion order.\<close>

datatype json =
    JNull
  | JBool bool
  | JInt int
  | JStr string
  | JList "json list"
  | JDict "(string \<times> json) list"

datatype http_method = GET | POST

text \<open>An \<open>aiohttp.ClientSession\<close> object is identified by a number.\<close>

type_synonym session = nat

text \<open>
  How a request reaches the network: through web3's \<open>async_json_make_get_request\<close>,
  through the session the client was constructed with, or through a session opened
  for this one request.
\<close>

datatype channel = Web3Request | SharedSession session | FreshSession

text \<open>
  One HTTP request as the code issues it. \<open>timeout_arg\<close> is the timeout handed to the
  call; \<open>None\<close> when the call passes no timeout.
\<close>

record request =
  verb :: http_method
  uri :: string
  json_body :: "json option"
  timeout_arg :: "int option"
  via :: channel

datatype log_level = DEBUG | ERROR

text \<open>A log record: level, format string and the arguments to the format.\<close>

type_synonym log_record = "log_level \<times> string \<times> string list"

text \<open>What a call does that can be observed from outside, in the order it happens.\<close>

datatype event = Sent request | Logged log_record

type_synonym trace = "event list"

fun sent_of :: "trace \<Rightarrow> request list" where
  "sent_of [] = []"
| "sent_of (Sent r # t) = r # sent_of t"
| "sent_of (Logged l # t) = sent_of t"

fun logs_of :: "trace \<Rightarrow> log_record list" where
  "logs_of [] = []"
| "logs_of (Sent r # t) = logs_of t"
| "logs_of (Logged l # t) = l # logs_of t"

definition error_logs :: "trace \<Rightarrow> log_record list" where
  "error_logs t = filter (\<lambda>l. fst l = ERROR) (logs_of t)"

subsection \<open>The environment of the client\<close>

text \<open>
  The parts the module imports and the network it talks to. \<open>'e\<close> is the type of
  exceptions.
  \<^item> \<open>urljoin\<close> is \<open>sw_utils.common.urljoin\<close>;
  \<^item> \<open>recovered e\<close> holds when \<open>e\<close> is caught by \<open>except AiohttpRecoveredErrors\<close>
    (\<open>sw_utils.exceptions\<close>);
  \<^item> \<open>repr\<close> is Python's \<open>repr\<close> on exceptions;
  \<^item> \<open>net k r\<close> is the outcome of request \<open>r\<close> when \<open>k\<close> requests were issued before it:
    \<open>Inl e\<close> when the request, \<open>raise_for_status\<close> or the decoding of the body raises
    \<open>e\<close>, and \<open>Inr j\<close> when the node answers with the JSON body \<open>j\<close>.
\<close>

record 'e env =
  urljoin :: "string \<Rightarrow> string \<Rightarrow> string"
  recovered :: "'e \<Rightarrow> bool"
  repr :: "'e \<Rightarrow> string"
  net :: "nat \<Rightarrow> request \<Rightarrow> 'e + json"

text \<open>Issuing a request appends it to the trace and yields the network's outcome.\<close>

definition issue :: "'e env \<Rightarrow> request \<Rightarrow> trace \<Rightarrow> ('e + json) \<times> trace" where
  "issue env r w = (net env (length (sent_of w)) r, w @ [Sent r])"

subsection \<open>Python's \<open>str\<close> on integers and \<open>str.join\<close>\<close>

definition digit_char :: "nat \<Rightarrow> char" where
  "digit_char d = ''0123456789'' ! d"

fun str_nat :: "nat \<Rightarrow> string" where
  "str_nat n = (if n < 10 then [digit_char n] else str_nat (n div 10) @ [digit_char (n mod 10)])"

declare str_nat.simps [simp del]

definition str_int :: "int \<Rightarrow> string" where
  "str_int i = (if i < 0 then CHR ''-'' # str_nat (nat (- i)) else str_nat (nat i))"

fun join :: "string \<Rightarrow> string list \<Rightarrow> string" where
  "join sep [] = []"
| "join sep [x] = x"
| "join sep (x # y # ys) = x @ sep @ join sep (y # ys)"

text \<open>Reading a string of decimal digits, most significant digit first.\<close>

definition digit_val :: "char \<Rightarrow> nat" where
  "digit_val c = of_char c - 48"

definition decimal_val :: "string \<Rightarrow> nat" where
  "decimal_val s = foldl (\<lambda>a c. 10 * a + digit_val c) 0 s"

definition is_digit :: "char \<Rightarrow> bool" where
  "is_digit c = (c \<in> set ''0123456789'')"

text \<open>
  Python's \<open>int\<close> on a string made of an optional minus sign and ASCII digits. The empty
  string, a sign with no digit after it and a string with any other character raise
  \<open>ValueError\<close>: the result is \<open>None\<close>.
\<close>

definition digits_val :: "string \<Rightarrow> nat option" where
  "digits_val s = (if s \<noteq> [] \<and> list_all is_digit s then Some (decimal_val s) else None)"

definition int_of_str :: "string \<Rightarrow> int option" where
  "int_of_str s =
     (case s of
        [] \<Rightarrow> None
      | c # cs \<Rightarrow>
          if c = CHR ''-'' then map_option (\<lambda>n. - int n) (digits_val cs)
          else map_option int (digits_val s))"

text \<open>
  The decimal writing of a number. For a natural number: at least one character, digits
  only, no leading zero unless the string is \<open>0\<close> itself, and the digits denote the
  number. For a negative integer: a minus sign, then the writing of its absolute value.
\<close>

definition decimal_of_nat :: "nat \<Rightarrow> string \<Rightarrow> bool" where
  "decimal_of_nat n s =
     (s \<noteq> [] \<and> list_all is_digit s \<and> (hd s \<noteq> CHR ''0'' \<or> s = ''0'') \<and> decimal_val s = n)"

definition decimal_of_int :: "int \<Rightarrow> string \<Rightarrow> bool" where
  "decimal_of_int i s =
     (if i < 0 then s \<noteq> [] \<and> hd s = CHR ''-'' \<and> decimal_of_nat (nat (- i)) (tl s)
      else decimal_of_nat (nat i) s)"

subsection \<open>The client\<close>

text \<open>\<open>GET_VOLUNTARY_EXITS\<close> of \<open>web3.beacon.api_endpoints\<close>.\<close>

definition GET_VOLUNTARY_EXITS :: string where
  "GET_VOLUNTARY_EXITS = ''/eth/v1/beacon/pool/voluntary_exits''"

text \<open>\<open>GET_VALIDATORS.format(a, b)\<close> for the template \<open>'/eth/v1/beacon/states/{0}/validators{1}'\<close>.\<close>

definition GET_VALIDATORS_format :: "string \<Rightarrow> string \<Rightarrow> string" where
  "GET_VALIDATORS_format a b = ''/eth/v1/beacon/states/'' @ a @ ''/validators'' @ b"

text \<open>The fields \<open>__init__\<close> stores; \<open>session\<close> is \<open>None\<close> by default.\<close>

record ExtendedAsyncBeacon =
  base_urls :: "string list"
  timeout :: int
  session :: "session option"

definition get_consensus_client ::
  "string list \<Rightarrow> int option \<Rightarrow> session option \<Rightarrow> ExtendedAsyncBeacon" where
  "get_consensus_client endpoints timeout_opt sess =
     \<lparr>base_urls = endpoints,
      timeout = (case timeout_opt of None \<Rightarrow> 60 | Some t \<Rightarrow> t),
      session = sess\<rparr>"

text \<open>
  \<open>_make_session_get_request\<close>: called only when \<open>self.session\<close> is set; \<open>s\<close> is that
  session. The request carries \<open>ClientTimeout(total=self.timeout)\<close>.
\<close>

definition session_get_request :: "ExtendedAsyncBeacon \<Rightarrow> session \<Rightarrow> string \<Rightarrow> request" where
  "session_get_request self s u =
     \<lparr>verb = GET, uri = u, json_body = None, timeout_arg = Some (timeout self),
      via = SharedSession s\<rparr>"

definition make_session_get_request ::
  "'e env \<Rightarrow> ExtendedAsyncBeacon \<Rightarrow> session \<Rightarrow> string \<Rightarrow> trace \<Rightarrow> ('e + json) \<times> trace" where
  "make_session_get_request env self s u w =
     issue env (session_get_request self s u) (w @ [Logged (DEBUG, ''GET %s'', [u])])"

text \<open>\<open>async_json_make_get_request(uri, timeout=t)\<close> of web3.\<close>

definition web3_get_request :: "string \<Rightarrow> int \<Rightarrow> request" where
  "web3_get_request u t =
     \<lparr>verb = GET, uri = u, json_body = None, timeout_arg = Some t, via = Web3Request\<rparr>"

definition async_json_make_get_request ::
  "'e env \<Rightarrow> string \<Rightarrow> int \<Rightarrow> trace \<Rightarrow> ('e + json) \<times> trace" where
  "async_json_make_get_request env u t w = issue env (web3_get_request u t) w"

text \<open>
  The loop of \<open>_async_make_get_request\<close> over \<open>enumerate(self.base_urls)\<close>. An exception
  that is not among \<open>AiohttpRecoveredErrors\<close> is not caught and leaves the function.
\<close>

fun get_loop ::
  "'e env \<Rightarrow> ExtendedAsyncBeacon \<Rightarrow> string \<Rightarrow> (nat \<times> string) list \<Rightarrow> trace
     \<Rightarrow> ('e + json) \<times> trace" where
  "get_loop env self endpoint_uri [] w = (Inr (JDict []), w)"
| "get_loop env self endpoint_uri ((i, url) # rest) w =
     (let u = urljoin env url endpoint_uri;
          (r, w1) = (case session self of
                       Some s \<Rightarrow> make_session_get_request env self s u w
                     | None \<Rightarrow> async_json_make_get_request env u (timeout self) w)
      in case r of
           Inr data \<Rightarrow> (Inr data, w1)
         | Inl error \<Rightarrow>
             if recovered env error then
               if int i = int (length (base_urls self)) - 1 then (Inl error, w1)
               else get_loop env self endpoint_uri rest
                      (w1 @ [Logged (ERROR, ''%s: %s'', [url, repr env error])])
             else (Inl error, w1))"

definition async_make_get_request ::
  "'e env \<Rightarrow> ExtendedAsyncBeacon \<Rightarrow> string \<Rightarrow> trace \<Rightarrow> ('e + json) \<times> trace" where
  "async_make_get_request env self endpoint_uri w =
     get_loop env self endpoint_uri (enumerate 0 (base_urls self)) w"

text \<open>
  \<open>get_validators_by_ids\<close>; \<open>state_id\<close> is \<open>None\<close> when the caller leaves the argument
  out, and then takes its default \<open>'head'\<close>.
\<close>

definition validators_endpoint :: "string list \<Rightarrow> string option \<Rightarrow> string" where
  "validators_endpoint validator_ids state_id =
     GET_VALIDATORS_format (case state_id of None \<Rightarrow> ''head'' | Some s \<Rightarrow> s)
       (''?id='' @ join ''&id='' validator_ids)"

definition get_validators_by_ids ::
  "'e env \<Rightarrow> ExtendedAsyncBeacon \<Rightarrow> string list \<Rightarrow> string option \<Rightarrow> trace
     \<Rightarrow> ('e + json) \<times> trace" where
  "get_validators_by_ids env self validator_ids state_id w =
     async_make_get_request env self (validators_endpoint validator_ids state_id) w"

text \<open>
  \<open>submit_voluntary_exit\<close>: the body is built once; every attempt opens a session of its
  own and posts without a timeout argument.
\<close>

definition voluntary_exit_data :: "int \<Rightarrow> int \<Rightarrow> string \<Rightarrow> json" where
  "voluntary_exit_data epoch validator_index signature =
     JDict [(''message'', JDict [(''epoch'', JStr (str_int epoch)),
                                 (''validator_index'', JStr (str_int validator_index))]),
            (''signature'', JStr signature)]"

definition post_request :: "string \<Rightarrow> json \<Rightarrow> request" where
  "post_request u data =
     \<lparr>verb = POST, uri = u, json_body = Some data, timeout_arg = None, via = FreshSession\<rparr>"

fun submit_loop ::
  "'e env \<Rightarrow> ExtendedAsyncBeacon \<Rightarrow> json \<Rightarrow> (nat \<times> string) list \<Rightarrow> trace
     \<Rightarrow> ('e + unit) \<times> trace" where
  "submit_loop env self data [] w = (Inr (), w)"
| "submit_loop env self data ((i, url) # rest) w =
     (let u = urljoin env url GET_VOLUNTARY_EXITS;
          (r, w1) = issue env (post_request u data) w
      in case r of
           Inr response \<Rightarrow> (Inr (), w1)
         | Inl error \<Rightarrow>
             if recovered env error then
               if int i = int (length (base_urls self)) - 1 then (Inl error, w1)
               else submit_loop env self data rest
                      (w1 @ [Logged (ERROR, ''%s: %s'', [url, repr env error])])
             else (Inl error, w1))"

definition submit_voluntary_exit ::
  "'e env \<Rightarrow> ExtendedAsyncBeacon \<Rightarrow> int \<Rightarrow> int \<Rightarrow> string \<Rightarrow> trace \<Rightarrow> ('e + unit) \<times> trace" where
  "submit_voluntary_exit env self epoch validator_index signature w =
     submit_loop env self (voluntary_exit_data epoch validator_index signature)
       (enumerate 0 (base_urls self)) w"

subsection \<open>Notions used in the statements\<close>

text \<open>
  The request an attempt of the read operation issues for the full URI \<open>u\<close>, and the events
  the attempt itself leaves in the trace (the session path logs at debug level first).
\<close>

definition get_request :: "ExtendedAsyncBeacon \<Rightarrow> string \<Rightarrow> request" where
  "get_request self u =
     (case session self of
        Some s \<Rightarrow> session_get_request self s u
      | None \<Rightarrow> web3_get_request u (timeout self))"

definition get_events :: "ExtendedAsyncBeacon \<Rightarrow> string \<Rightarrow> trace" where
  "get_events self u =
     (case session self of
        Some s \<Rightarrow> [Logged (DEBUG, ''GET %s'', [u]), Sent (get_request self u)]
      | None \<Rightarrow> [Sent (get_request self u)])"

definition fails_recoverably :: "'e env \<Rightarrow> nat \<Rightarrow> request \<Rightarrow> bool" where
  "fails_recoverably env k r = (case net env k r of Inl e \<Rightarrow> recovered env e | Inr j \<Rightarrow> False)"

definition failure_record :: "'e env \<Rightarrow> string \<Rightarrow> 'e + json \<Rightarrow> log_record" where
  "failure_record env url r = (ERROR, ''%s: %s'', [url, repr env (projl r)])"

definition read_request :: "'e env \<Rightarrow> ExtendedAsyncBeacon \<Rightarrow> string \<Rightarrow> nat \<Rightarrow> request" where
  "read_request env self ep j = get_request self (urljoin env (base_urls self ! j) ep)"

definition read_events :: "'e env \<Rightarrow> ExtendedAsyncBeacon \<Rightarrow> string \<Rightarrow> nat \<Rightarrow> trace" where
  "read_events env self ep j = get_events self (urljoin env (base_urls self ! j) ep)"

definition write_request :: "'e env \<Rightarrow> ExtendedAsyncBeacon \<Rightarrow> json \<Rightarrow> nat \<Rightarrow> request" where
  "write_request env self data j =
     post_request (urljoin env (base_urls self ! j) GET_VOLUNTARY_EXITS) data"

definition write_events :: "'e env \<Rightarrow> ExtendedAsyncBeacon \<Rightarrow> json \<Rightarrow> nat \<Rightarrow> trace" where
  "write_events env self data j = [Sent (write_request env self data j)]"

fun failover_trace ::
  "'e env \<Rightarrow> string list \<Rightarrow> (nat \<Rightarrow> trace) \<Rightarrow> (nat \<Rightarrow> request) \<Rightarrow> nat \<Rightarrow> nat \<Rightarrow> trace" where
  "failover_trace env urls evs req k0 0 = []"
| "failover_trace env urls evs req k0 (Suc m) =
     failover_trace env urls evs req k0 m @ evs m
       @ [Logged (failure_record env (urls ! m) (net env (k0 + m) (req m)))]"

subsection \<open>Example environments\<close>

text \<open>
  Concrete environments on which the theorems are exercised: exceptions are named by
  strings, \<open>urljoin\<close> concatenates, and every exception but \<open>MemoryError\<close> is among the
  recovered ones.
\<close>

definition example_env :: "(nat \<Rightarrow> request \<Rightarrow> string + json) \<Rightarrow> string env" where
  "example_env n =
     \<lparr>urljoin = (\<lambda>a b. a @ b), recovered = (\<lambda>e. e \<noteq> ''MemoryError''), repr = (\<lambda>e. e),
      net = n\<rparr>"

text \<open>Every node refuses the connection.\<close>

definition all_down :: "nat \<Rightarrow> request \<Rightarrow> string + json" where
  "all_down k r = Inl ''ClientConnectorError''"

text \<open>The first request times out; every later one is answered.\<close>

definition first_down :: "nat \<Rightarrow> request \<Rightarrow> string + json" where
  "first_down k r = (if k = 0 then Inl ''TimeoutError'' else Inr (JDict [(''data'', JList [])]))"

text \<open>Every request is answered.\<close>

definition all_up :: "nat \<Rightarrow> request \<Rightarrow> string + json" where
  "all_up k r = Inr (JDict [(''data'', JList [])])"

section \<open>Properties of the failover loops\<close>

subsection \<open>Traces\<close>

lemma sent_of_append: "sent_of (a @ b) = sent_of a @ sent_of b"
  by (induction a rule: sent_of.induct) simp_all

lemma logs_of_append: "logs_of (a @ b) = logs_of a @ logs_of b"
  by (induction a rule: logs_of.induct) simp_all

lemma error_logs_append: "error_logs (a @ b) = error_logs a @ error_logs b"
  by (simp add: error_logs_def logs_of_append)

lemma sent_of_read_events: "sent_of (read_events env self ep j) = [read_request env self ep j]"
  by (simp add: read_events_def read_request_def get_events_def split: option.splits)

lemma error_logs_read_events: "error_logs (read_events env self ep j) = []"
  by (simp add: read_events_def get_events_def error_logs_def split: option.splits)

lemma sent_of_write_events: "sent_of (write_events env self data j) = [write_request env self data j]"
  by (simp add: write_events_def)

lemma error_logs_write_events: "error_logs (write_events env self data j) = []"
  by (simp add: write_events_def error_logs_def)

lemma sent_of_failover_trace:
  assumes "\<And>j. sent_of (evs j) = [req j]"
  shows "length (sent_of (failover_trace env urls evs req k0 m)) = m"
  by (induction m) (simp_all add: sent_of_append assms)

lemma error_logs_failover_trace:
  assumes "\<And>j. error_logs (evs j) = []"
  shows "error_logs (failover_trace env urls evs req k0 m) =
         map (\<lambda>j. failure_record env (urls ! j) (net env (k0 + j) (req j))) [0..<m]"
proof (induction m)
  case 0
  show ?case by (simp add: error_logs_def)
next
  case (Suc m)
  have "error_logs [Logged (failure_record env (urls ! m) (net env (k0 + m) (req m)))] =
        [failure_record env (urls ! m) (net env (k0 + m) (req m))]"
    by (simp add: error_logs_def failure_record_def)
  then show ?case using Suc by (simp add: error_logs_append assms)
qed

lemma get_attempt:
  "(case session self of
      Some s \<Rightarrow> make_session_get_request env self s u w
    | None \<Rightarrow> async_json_make_get_request env u (timeout self) w)
   = (net env (length (sent_of w)) (get_request self u), w @ get_events self u)"
  by (simp add: make_session_get_request_def async_json_make_get_request_def issue_def
      get_request_def get_events_def sent_of_append split: option.splits)

lemma last_index: "(int i = int n - 1) = (Suc i = n)"
  by linarith

lemma get_loop_Cons:
  "get_loop env self ep ((i, url) # rest) w =
     (let r = net env (length (sent_of w)) (get_request self (urljoin env url ep));
          w1 = w @ get_events self (urljoin env url ep)
      in case r of
           Inr data \<Rightarrow> (Inr data, w1)
         | Inl error \<Rightarrow>
             if recovered env error then
               if Suc i = length (base_urls self) then (Inl error, w1)
               else get_loop env self ep rest (w1 @ [Logged (failure_record env url r)])
             else (Inl error, w1))"
  by (simp only: get_loop.simps get_attempt Let_def prod.case last_index)
     (simp add: failure_record_def split: sum.splits)

lemma submit_loop_Cons:
  "submit_loop env self data ((i, url) # rest) w =
     (let r = net env (length (sent_of w)) (post_request (urljoin env url GET_VOLUNTARY_EXITS) data);
          w1 = w @ [Sent (post_request (urljoin env url GET_VOLUNTARY_EXITS) data)]
      in case r of
           Inr response \<Rightarrow> (Inr (), w1)
         | Inl error \<Rightarrow>
             if recovered env error then
               if Suc i = length (base_urls self) then (Inl error, w1)
               else submit_loop env self data rest (w1 @ [Logged (failure_record env url r)])
             else (Inl error, w1))"
  by (simp only: submit_loop.simps issue_def Let_def prod.case last_index)
     (simp add: failure_record_def split: sum.splits)

lemma enumerate_drop:
  "m < length us \<Longrightarrow> enumerate m (drop m us) = (m, us ! m) # enumerate (Suc m) (drop (Suc m) us)"
  by (simp add: Cons_nth_drop_Suc [symmetric])

lemma get_loop_skip:
  assumes "m < length (base_urls self)"
    and "\<forall>j<m. fails_recoverably env (length (sent_of w) + j) (read_request env self ep j)"
  shows "get_loop env self ep (enumerate 0 (base_urls self)) w =
         get_loop env self ep (enumerate m (drop m (base_urls self)))
           (w @ failover_trace env (base_urls self) (read_events env self ep)
                  (read_request env self ep) (length (sent_of w)) m)"
  using assms
proof (induction m)
  case 0
  then show ?case by simp
next
  case (Suc m)
  let ?us = "base_urls self"
  let ?F = "failover_trace env ?us (read_events env self ep) (read_request env self ep)
              (length (sent_of w))"
  have m: "m < length ?us" and nl: "Suc m \<noteq> length ?us" using Suc.prems(1) by simp_all
  have cnt: "length (sent_of (w @ ?F m)) = length (sent_of w) + m"
    by (simp add: sent_of_append sent_of_failover_trace sent_of_read_events)
  have f: "fails_recoverably env (length (sent_of w) + m) (read_request env self ep m)"
    using Suc.prems(2) by simp
  have "get_loop env self ep (enumerate 0 ?us) w =
        get_loop env self ep (enumerate m (drop m ?us)) (w @ ?F m)"
    using Suc.IH m Suc.prems(2) by simp
  also have "\<dots> = get_loop env self ep (enumerate (Suc m) (drop (Suc m) ?us)) (w @ ?F (Suc m))"
    using f nl unfolding enumerate_drop [OF m] get_loop_Cons cnt
    by (simp add: fails_recoverably_def read_request_def read_events_def Let_def
        split: sum.splits)
  finally show ?case .
qed

lemma submit_loop_skip:
  assumes "m < length (base_urls self)"
    and "\<forall>j<m. fails_recoverably env (length (sent_of w) + j) (write_request env self data j)"
  shows "submit_loop env self data (enumerate 0 (base_urls self)) w =
         submit_loop env self data (enumerate m (drop m (base_urls self)))
           (w @ failover_trace env (base_urls self) (write_events env self data)
                  (write_request env self data) (length (sent_of w)) m)"
  using assms
proof (induction m)
  case 0
  then show ?case by simp
next
  case (Suc m)
  let ?us = "base_urls self"
  let ?F = "failover_trace env ?us (write_events env self data) (write_request env self data)
              (length (sent_of w))"
  have m: "m < length ?us" and nl: "Suc m \<noteq> length ?us" using Suc.prems(1) by simp_all
  have cnt: "length (sent_of (w @ ?F m)) = length (sent_of w) + m"
    by (simp add: sent_of_append sent_of_failover_trace sent_of_write_events)
  have f: "fails_recoverably env (length (sent_of w) + m) (write_request env self data m)"
    using Suc.prems(2) by simp
  have "submit_loop env self data (enumerate 0 ?us) w =
        submit_loop env self data (enumerate m (drop m ?us)) (w @ ?F m)"
    using Suc.IH m Suc.prems(2) by simp
  also have "\<dots> = submit_loop env self data (enumerate (Suc m) (drop (Suc m) ?us)) (w @ ?F (Suc m))"
    using f nl unfolding enumerate_drop [OF m] submit_loop_Cons cnt
    by (simp add: fails_recoverably_def write_request_def write_events_def Let_def
        split: sum.splits)
  finally show ?case .
qed

text \<open>Every run extends the trace it starts from.\<close>

lemma get_loop_extends: "\<exists>ext. snd (get_loop env self ep items w) = w @ ext"
proof (induction items arbitrary: w)
  case Nil
  show ?case by simp
next
  case (Cons a items)
  obtain i url where a: "a = (i, url)" by (cases a)
  show ?case
  proof (cases "net env (length (sent_of w)) (get_request self (urljoin env url ep))")
    case (Inr d)
    then show ?thesis unfolding a get_loop_Cons by (simp add: Let_def)
  next
    case (Inl e)
    from Cons.IH [of "(w @ get_events self (urljoin env url ep)) @ [Logged (failure_record env url (Inl e))]"]
    obtain ext where "snd (get_loop env self ep items
       ((w @ get_events self (urljoin env url ep)) @ [Logged (failure_record env url (Inl e))]))
       = w @ get_events self (urljoin env url ep) @ [Logged (failure_record env url (Inl e))] @ ext"
      by auto
    with Inl show ?thesis unfolding a get_loop_Cons by (simp add: Let_def)
  qed
qed

lemma submit_loop_extends: "\<exists>ext. snd (submit_loop env self data items w) = w @ ext"
proof (induction items arbitrary: w)
  case Nil
  show ?case by simp
next
  case (Cons a items)
  obtain i url where a: "a = (i, url)" by (cases a)
  let ?r = "post_request (urljoin env url GET_VOLUNTARY_EXITS) data"
  show ?case
  proof (cases "net env (length (sent_of w)) ?r")
    case (Inr d)
    then show ?thesis unfolding a submit_loop_Cons by (simp add: Let_def)
  next
    case (Inl e)
    from Cons.IH [of "(w @ [Sent ?r]) @ [Logged (failure_record env url (Inl e))]"]
    obtain ext where "snd (submit_loop env self data items
       ((w @ [Sent ?r]) @ [Logged (failure_record env url (Inl e))]))
       = w @ [Sent ?r] @ [Logged (failure_record env url (Inl e))] @ ext"
      by auto
    with Inl show ?thesis unfolding a submit_loop_Cons by (simp add: Let_def)
  qed
qed

lemma get_loop_starts:
  "\<exists>ext. snd (get_loop env self ep ((i, url) # rest) w) = w @ get_events self (urljoin env url ep) @ ext"
proof (cases "net env (length (sent_of w)) (get_request self (urljoin env url ep))")
  case (Inr d)
  then show ?thesis unfolding get_loop_Cons by (simp add: Let_def)
next
  case (Inl e)
  from get_loop_extends [of env self ep rest
      "(w @ get_events self (urljoin env url ep)) @ [Logged (failure_record env url (Inl e))]"]
  obtain ext where "snd (get_loop env self ep rest
       ((w @ get_events self (urljoin env url ep)) @ [Logged (failure_record env url (Inl e))]))
       = w @ get_events self (urljoin env url ep) @ [Logged (failure_record env url (Inl e))] @ ext"
    by auto
  with Inl show ?thesis unfolding get_loop_Cons by (simp add: Let_def)
qed

lemma submit_loop_starts:
  "\<exists>ext. snd (submit_loop env self data ((i, url) # rest) w) =
     w @ [Sent (post_request (urljoin env url GET_VOLUNTARY_EXITS) data)] @ ext"
proof (cases "net env (length (sent_of w)) (post_request (urljoin env url GET_VOLUNTARY_EXITS) data)")
  case (Inr d)
  then show ?thesis unfolding submit_loop_Cons by (simp add: Let_def)
next
  case (Inl e)
  let ?r = "post_request (urljoin env url GET_VOLUNTARY_EXITS) data"
  from submit_loop_extends [of env self data rest
      "(w @ [Sent ?r]) @ [Logged (failure_record env url (Inl e))]"]
  obtain ext where "snd (submit_loop env self data rest
       ((w @ [Sent ?r]) @ [Logged (failure_record env url (Inl e))]))
       = w @ [Sent ?r] @ [Logged (failure_record env url (Inl e))] @ ext"
    by auto
  with Inl show ?thesis unfolding submit_loop_Cons by (simp add: Let_def)
qed

subsection \<open>The two operations\<close>

lemma read_trace_count:
  "length (sent_of (failover_trace env (base_urls self) (read_events env self ep)
     (read_request env self ep) k0 m)) = m"
  by (rule sent_of_failover_trace) (rule sent_of_read_events)

lemma write_trace_count:
  "length (sent_of (failover_trace env (base_urls self) (write_events env self data)
     (write_request env self data) k0 m)) = m"
  by (rule sent_of_failover_trace) (rule sent_of_write_events)

lemma read_trace_error_logs:
  "error_logs (failover_trace env (base_urls self) (read_events env self ep)
     (read_request env self ep) k0 m) =
   map (\<lambda>j. failure_record env (base_urls self ! j) (net env (k0 + j) (read_request env self ep j)))
     [0..<m]"
  by (rule error_logs_failover_trace) (rule error_logs_read_events)

lemma write_trace_error_logs:
  "error_logs (failover_trace env (base_urls self) (write_events env self data)
     (write_request env self data) k0 m) =
   map (\<lambda>j. failure_record env (base_urls self ! j) (net env (k0 + j) (write_request env self data j)))
     [0..<m]"
  by (rule error_logs_failover_trace) (rule error_logs_write_events)

text \<open>
  When every endpoint before the last fails recoverably, the outcome of the whole
  operation is the outcome of the attempt on the last endpoint.
\<close>

lemma async_make_get_request_reaches_last:
  assumes len: "length (base_urls self) = Suc n1"
    and fails: "\<forall>j<n1. fails_recoverably env (length (sent_of w) + j) (read_request env self ep j)"
  shows "async_make_get_request env self ep w =
     (net env (length (sent_of w) + n1) (read_request env self ep n1),
      w @ failover_trace env (base_urls self) (read_events env self ep)
            (read_request env self ep) (length (sent_of w)) n1
        @ read_events env self ep n1)"
proof -
  let ?us = "base_urls self"
  let ?w = "w @ failover_trace env ?us (read_events env self ep) (read_request env self ep)
                  (length (sent_of w)) n1"
  have lt: "n1 < length ?us" using len by simp
  have dr: "enumerate n1 (drop n1 ?us) = [(n1, ?us ! n1)]"
    using len by (simp add: enumerate_drop [OF lt])
  have cnt: "length (sent_of ?w) = length (sent_of w) + n1"
    by (simp add: sent_of_append read_trace_count)
  have "async_make_get_request env self ep w = get_loop env self ep [(n1, ?us ! n1)] ?w"
    unfolding async_make_get_request_def get_loop_skip [OF lt fails] dr ..
  also have "\<dots> = (net env (length (sent_of w) + n1) (read_request env self ep n1),
                    ?w @ read_events env self ep n1)"
    unfolding get_loop_Cons cnt
    by (simp add: Let_def len read_request_def read_events_def split: sum.splits)
  finally show ?thesis by simp
qed

lemma submit_voluntary_exit_reaches_last:
  assumes len: "length (base_urls self) = Suc n1"
    and fails: "\<forall>j<n1. fails_recoverably env (length (sent_of w) + j)
                  (write_request env self (voluntary_exit_data epoch vi sig) j)"
  shows "submit_voluntary_exit env self epoch vi sig w =
     (case net env (length (sent_of w) + n1)
             (write_request env self (voluntary_exit_data epoch vi sig) n1) of
        Inl error \<Rightarrow> Inl error
      | Inr response \<Rightarrow> Inr (),
      w @ failover_trace env (base_urls self)
            (write_events env self (voluntary_exit_data epoch vi sig))
            (write_request env self (voluntary_exit_data epoch vi sig)) (length (sent_of w)) n1
        @ write_events env self (voluntary_exit_data epoch vi sig) n1)"
proof -
  let ?us = "base_urls self"
  let ?d = "voluntary_exit_data epoch vi sig"
  let ?w = "w @ failover_trace env ?us (write_events env self ?d) (write_request env self ?d)
                  (length (sent_of w)) n1"
  have lt: "n1 < length ?us" using len by simp
  have dr: "enumerate n1 (drop n1 ?us) = [(n1, ?us ! n1)]"
    using len by (simp add: enumerate_drop [OF lt])
  have cnt: "length (sent_of ?w) = length (sent_of w) + n1"
    by (simp add: sent_of_append write_trace_count)
  have "submit_voluntary_exit env self epoch vi sig w = submit_loop env self ?d [(n1, ?us ! n1)] ?w"
    unfolding submit_voluntary_exit_def submit_loop_skip [OF lt fails] dr ..
  also have "\<dots> = (case net env (length (sent_of w) + n1) (write_request env self ?d n1) of
                      Inl error \<Rightarrow> Inl error | Inr response \<Rightarrow> Inr (),
                    ?w @ write_events env self ?d n1)"
    unfolding submit_loop_Cons cnt
    by (simp add: Let_def len write_request_def write_events_def split: sum.splits)
  finally show ?thesis by simp
qed

lemma read_events_split:
  "\<exists>dbg. read_events env self ep j = dbg @ [Sent (read_request env self ep j)] \<and> sent_of dbg = []
         \<and> error_logs dbg = []"
  by (cases "session self")
     (simp_all add: read_events_def read_request_def get_events_def error_logs_def)

lemma get_request_fields:
  "verb (get_request self u) = GET \<and> uri (get_request self u) = u \<and>
   timeout_arg (get_request self u) = Some (timeout self)"
  by (cases "session self")
     (simp_all add: get_request_def session_get_request_def web3_get_request_def)

subsection \<open>Decimal strings\<close>

lemma digit_char_cases:
  assumes "d < 10"
  shows "digit_val (digit_char d) = d \<and> is_digit (digit_char d) \<and> digit_char d \<noteq> CHR ''-''"
proof -
  from assms have "d = 0 \<or> d = 1 \<or> d = 2 \<or> d = 3 \<or> d = 4 \<or> d = 5 \<or> d = 6 \<or> d = 7 \<or> d = 8 \<or> d = 9"
    by arith
  then show ?thesis
    by (elim disjE) (simp_all add: digit_val_def digit_char_def is_digit_def)
qed

lemma decimal_val_snoc: "decimal_val (s @ [c]) = 10 * decimal_val s + digit_val c"
  by (simp add: decimal_val_def)

lemma decimal_val_str_nat: "decimal_val (str_nat n) = n"
proof (induction n rule: str_nat.induct)
  case (1 n)
  show ?case
  proof (cases "n < 10")
    case True
    then show ?thesis
      by (subst str_nat.simps) (simp add: decimal_val_def digit_char_cases)
  next
    case False
    have "n mod 10 < 10" by simp
    then have "digit_val (digit_char (n mod 10)) = n mod 10" by (simp add: digit_char_cases)
    with False "1.IH" show ?thesis
      by (subst str_nat.simps) (simp add: decimal_val_snoc)
  qed
qed

lemma str_nat_digits: "str_nat n \<noteq> [] \<and> list_all is_digit (str_nat n) \<and> hd (str_nat n) \<noteq> CHR ''-''"
proof (induction n rule: str_nat.induct)
  case (1 n)
  show ?case
  proof (cases "n < 10")
    case True
    then show ?thesis
      by (subst (1 2 3) str_nat.simps) (simp add: digit_char_cases)
  next
    case False
    have "n mod 10 < 10" by simp
    then have "is_digit (digit_char (n mod 10))" by (simp add: digit_char_cases)
    with False "1.IH" show ?thesis
      by (subst (1 2 3) str_nat.simps) simp
  qed
qed

lemma str_nat_small: "n < 10 \<Longrightarrow> str_nat n = [digit_char n]"
  by (subst str_nat.simps) simp

lemma str_nat_large: "\<not> n < 10 \<Longrightarrow> str_nat n = str_nat (n div 10) @ [digit_char (n mod 10)]"
  by (subst str_nat.simps) simp

lemma digits_val_str_nat: "digits_val (str_nat n) = Some n"
  by (simp add: digits_val_def str_nat_digits decimal_val_str_nat)

lemma int_of_str_str_int: "int_of_str (str_int i) = Some i"
proof (cases "i < 0")
  case True
  then show ?thesis by (simp add: int_of_str_def str_int_def digits_val_str_nat)
next
  case False
  obtain c cs where s: "str_nat (nat i) = c # cs"
    using str_nat_digits [of "nat i"] by (cases "str_nat (nat i)") simp_all
  have "c \<noteq> CHR ''-''" using str_nat_digits [of "nat i"] s by simp
  moreover have "digits_val (c # cs) = Some (nat i)" using digits_val_str_nat [of "nat i"] s by simp
  ultimately show ?thesis using False by (simp add: int_of_str_def str_int_def s)
qed

text \<open>\<open>str\<close> writes no leading zero: only the writing of zero starts with \<open>0\<close>.\<close>

lemma digit_char_zero: "d < 10 \<Longrightarrow> (digit_char d = CHR ''0'') = (d = 0)"
proof -
  assume "d < 10"
  then have "d = 0 \<or> d = 1 \<or> d = 2 \<or> d = 3 \<or> d = 4 \<or> d = 5 \<or> d = 6 \<or> d = 7 \<or> d = 8 \<or> d = 9"
    by arith
  then show ?thesis by (elim disjE) (simp_all add: digit_char_def)
qed

lemma str_nat_leading: "hd (str_nat n) = CHR ''0'' \<Longrightarrow> n = 0"
proof (induction n rule: str_nat.induct)
  case (1 n)
  show ?case
  proof (cases "n < 10")
    case True
    with "1.prems" show ?thesis by (simp add: str_nat_small digit_char_zero)
  next
    case False
    have ne: "str_nat (n div 10) \<noteq> []" using str_nat_digits by blast
    have "hd (str_nat (n div 10)) = CHR ''0''"
      using "1.prems" False ne by (simp add: str_nat_large)
    with "1.IH" False have "n div 10 = 0" by blast
    with False show ?thesis by simp
  qed
qed

lemma str_nat_zero: "str_nat 0 = ''0''"
  by (simp add: str_nat_small digit_char_def)

lemma decimal_of_nat_str_nat: "decimal_of_nat n (str_nat n)"
proof -
  have "hd (str_nat n) \<noteq> CHR ''0'' \<or> str_nat n = ''0''"
    using str_nat_leading [of n] str_nat_zero by blast
  then show ?thesis
    by (simp add: decimal_of_nat_def str_nat_digits decimal_val_str_nat)
qed

lemma decimal_of_int_str_int: "decimal_of_int i (str_int i)"
  by (simp add: decimal_of_int_def str_int_def decimal_of_nat_str_nat)

text \<open>
  The decimal writing is unique: any string that is a decimal writing of \<open>n\<close> is the
  string \<open>str\<close> produces.
\<close>

lemma is_digit_char: "is_digit c \<Longrightarrow> digit_val c < 10 \<and> digit_char (digit_val c) = c"
  by (auto simp: is_digit_def digit_val_def digit_char_def)

lemma is_digit_zero: "is_digit c \<Longrightarrow> c \<noteq> CHR ''0'' \<Longrightarrow> 0 < digit_val c"
  by (auto simp: is_digit_def digit_val_def)

lemma decimal_val_pos:
  "t \<noteq> [] \<Longrightarrow> list_all is_digit t \<Longrightarrow> hd t \<noteq> CHR ''0'' \<Longrightarrow> 0 < decimal_val t"
proof (induction t rule: rev_induct)
  case Nil
  then show ?case by simp
next
  case (snoc c u)
  show ?case
  proof (cases "u = []")
    case True
    with snoc.prems show ?thesis
      by (simp add: decimal_val_def is_digit_zero)
  next
    case False
    with snoc have "0 < decimal_val u" by simp
    then show ?thesis by (simp add: decimal_val_snoc)
  qed
qed

lemma decimal_of_nat_unique: "decimal_of_nat n s \<Longrightarrow> s = str_nat n"
proof (induction s arbitrary: n rule: rev_induct)
  case Nil
  then show ?case by (simp add: decimal_of_nat_def)
next
  case (snoc c t)
  from snoc.prems have dig: "list_all is_digit t" and c: "is_digit c"
    and val: "10 * decimal_val t + digit_val c = n"
    and lead: "hd (t @ [c]) \<noteq> CHR ''0'' \<or> t @ [c] = ''0''"
    by (simp_all add: decimal_of_nat_def decimal_val_snoc)
  have c10: "digit_val c < 10" and cc: "digit_char (digit_val c) = c"
    using is_digit_char [OF c] by simp_all
  show ?case
  proof (cases "t = []")
    case True
    with val c10 have "n < 10" "digit_val c = n" by (simp_all add: decimal_val_def)
    with True cc show ?thesis by (simp add: str_nat_small)
  next
    case False
    then have hd: "hd t \<noteq> CHR ''0''" using lead by (cases t) auto
    have pos: "0 < decimal_val t" using decimal_val_pos [OF False dig hd] .
    have big: "\<not> n < 10" using val pos by arith
    have d: "n div 10 = decimal_val t" and m: "n mod 10 = digit_val c"
      using val c10 by auto
    have "decimal_of_nat (n div 10) t"
      using False dig hd d by (simp add: decimal_of_nat_def)
    then have "t = str_nat (n div 10)" by (rule snoc.IH)
    then show ?thesis using big m cc by (simp add: str_nat_large)
  qed
qed

subsection \<open>The requests of the write operation\<close>

lemma submit_loop_requests:
  "\<exists>ext. snd (submit_loop env self data items w) = w @ ext \<and>
         (\<forall>r\<in>set (sent_of ext). verb r = POST \<and> json_body r = Some data)"
proof (induction items arbitrary: w)
  case Nil
  show ?case by simp
next
  case (Cons a items)
  obtain i url where a: "a = (i, url)" by (cases a)
  let ?r = "post_request (urljoin env url GET_VOLUNTARY_EXITS) data"
  have r: "verb ?r = POST \<and> json_body ?r = Some data" by (simp add: post_request_def)
  show ?case
  proof (cases "net env (length (sent_of w)) ?r")
    case (Inr d)
    then have "snd (submit_loop env self data (a # items) w) = w @ [Sent ?r]"
      unfolding a submit_loop_Cons by (simp add: Let_def)
    with r show ?thesis by simp
  next
    case (Inl e)
    let ?l = "Logged (failure_record env url (Inl e))"
    show ?thesis
    proof (cases "recovered env e \<and> Suc i \<noteq> length (base_urls self)")
      case True
      from Cons.IH [of "(w @ [Sent ?r]) @ [?l]"]
      obtain ext where ext: "snd (submit_loop env self data items ((w @ [Sent ?r]) @ [?l]))
            = ((w @ [Sent ?r]) @ [?l]) @ ext"
        and all: "\<forall>r\<in>set (sent_of ext). verb r = POST \<and> json_body r = Some data"
        by blast
      have "snd (submit_loop env self data (a # items) w) = w @ (Sent ?r # ?l # ext)"
        using Inl True ext unfolding a submit_loop_Cons by (simp add: Let_def)
      moreover have "\<forall>r\<in>set (sent_of (Sent ?r # ?l # ext)). verb r = POST \<and> json_body r = Some data"
        using all r by simp
      ultimately show ?thesis by blast
    next
      case False
      then have "snd (submit_loop env self data (a # items) w) = w @ [Sent ?r]"
        using Inl unfolding a submit_loop_Cons by (auto simp: Let_def)
      with r show ?thesis by simp
    qed
  qed
qed

section \<open>The claims\<close>

text \<open>
  C1. When the endpoint list is not empty and the attempt on every endpoint fails with a
  recoverable error, \<open>get_validators_by_ids\<close> (through \<open>_async_make_get_request\<close>)
  raises: its result is the error of the attempt on the last endpoint of the list, the
  attempt numbered \<open>len(base_urls) - 1\<close>, whatever the earlier endpoints raised.
  (The empty list has no last endpoint; there the operation returns, see C4.)
\<close>

theorem read_all_fail_raises_last:
  assumes "base_urls self \<noteq> []"
    and "\<forall>j<length (base_urls self).
           fails_recoverably env (length (sent_of w) + j)
             (read_request env self (validators_endpoint ids sid) j)"
  shows "isl (fst (get_validators_by_ids env self ids sid w)) \<and>
         fst (get_validators_by_ids env self ids sid w) =
           net env (length (sent_of w) + (length (base_urls self) - 1))
             (get_request self (urljoin env (last (base_urls self)) (validators_endpoint ids sid)))"
proof -
  let ?ep = "validators_endpoint ids sid"
  from assms(1) obtain n1 where len: "length (base_urls self) = Suc n1"
    by (cases "base_urls self") simp_all
  have pre: "\<forall>j<n1. fails_recoverably env (length (sent_of w) + j) (read_request env self ?ep j)"
    using assms(2) len by simp
  have f: "fails_recoverably env (length (sent_of w) + n1) (read_request env self ?ep n1)"
    using assms(2) len by simp
  have lst: "read_request env self ?ep n1 = get_request self (urljoin env (last (base_urls self)) ?ep)"
    using assms(1) len by (simp add: read_request_def last_conv_nth)
  from f obtain e where e: "net env (length (sent_of w) + n1) (read_request env self ?ep n1) = Inl e"
    by (auto simp: fails_recoverably_def split: sum.splits)
  have "fst (get_validators_by_ids env self ids sid w) = Inl e"
    unfolding get_validators_by_ids_def async_make_get_request_reaches_last [OF len pre]
    by (simp add: e)
  then show ?thesis using e len by (simp add: lst)
qed

text \<open>
  Two endpoints, each raising an exception named after the URI requested: the caller
  sees the exception of the second.
\<close>

theorem read_all_fail_raises_last_witness:
  "base_urls (get_consensus_client [''a'', ''b''] None None) \<noteq> [] \<and>
   fails_recoverably (example_env (\<lambda>k r. Inl (uri r))) 0
     (read_request (example_env (\<lambda>k r. Inl (uri r))) (get_consensus_client [''a'', ''b''] None None)
        (validators_endpoint [''7''] None) 0) \<and>
   fails_recoverably (example_env (\<lambda>k r. Inl (uri r))) 1
     (read_request (example_env (\<lambda>k r. Inl (uri r))) (get_consensus_client [''a'', ''b''] None None)
        (validators_endpoint [''7''] None) 1) \<and>
   fst (get_validators_by_ids (example_env (\<lambda>k r. Inl (uri r)))
          (get_consensus_client [''a'', ''b''] None None) [''7''] None [])
     = Inl ''b/eth/v1/beacon/states/head/validators?id=7''"
proof -
  let ?env = "example_env (\<lambda>k r. Inl (uri r))"
  let ?self = "get_consensus_client [''a'', ''b''] None None"
  have h1: "base_urls ?self \<noteq> []" by (simp add: get_consensus_client_def)
  have h2: "\<forall>j<length (base_urls ?self).
      fails_recoverably ?env (length (sent_of []) + j)
        (read_request ?env ?self (validators_endpoint [''7''] None) j)"
    by (simp add: get_consensus_client_def fails_recoverably_def example_env_def less_Suc_eq
        read_request_def get_request_def web3_get_request_def)
  show ?thesis
    using h1 read_all_fail_raises_last [OF h1 h2]
    by (simp add: get_consensus_client_def example_env_def get_request_def web3_get_request_def
        validators_endpoint_def GET_VALIDATORS_format_def fails_recoverably_def read_request_def)
qed

text \<open>
  C2. When the endpoint list is not empty, every endpoint before the last fails with a
  recoverable error and the last endpoint answers, \<open>get_validators_by_ids\<close> returns the
  answer of the last endpoint, and the records the call logs at error level are exactly
  one per preceding endpoint, in list order, each naming that endpoint and its error.
\<close>

theorem read_fails_over_to_last:
  assumes "base_urls self \<noteq> []"
    and "\<forall>j<length (base_urls self) - 1.
           fails_recoverably env (length (sent_of w) + j)
             (read_request env self (validators_endpoint ids sid) j)"
    and "net env (length (sent_of w) + (length (base_urls self) - 1))
           (get_request self (urljoin env (last (base_urls self)) (validators_endpoint ids sid)))
         = Inr response"
  shows "fst (get_validators_by_ids env self ids sid w) = Inr response \<and>
         error_logs (snd (get_validators_by_ids env self ids sid w)) =
           error_logs w @
           map (\<lambda>j. (ERROR, ''%s: %s'',
                      [base_urls self ! j,
                       repr env (projl (net env (length (sent_of w) + j)
                                          (read_request env self (validators_endpoint ids sid) j)))]))
             [0..<length (base_urls self) - 1]"
proof -
  let ?ep = "validators_endpoint ids sid"
  from assms(1) obtain n1 where len: "length (base_urls self) = Suc n1"
    by (cases "base_urls self") simp_all
  have pre: "\<forall>j<n1. fails_recoverably env (length (sent_of w) + j) (read_request env self ?ep j)"
    using assms(2) len by simp
  have lst: "read_request env self ?ep n1 = get_request self (urljoin env (last (base_urls self)) ?ep)"
    using assms(1) len by (simp add: read_request_def last_conv_nth)
  have r: "net env (length (sent_of w) + n1) (read_request env self ?ep n1) = Inr response"
    using assms(3) len by (simp add: lst)
  have run: "get_validators_by_ids env self ids sid w =
      (Inr response,
       w @ failover_trace env (base_urls self) (read_events env self ?ep)
             (read_request env self ?ep) (length (sent_of w)) n1
         @ read_events env self ?ep n1)"
    unfolding get_validators_by_ids_def async_make_get_request_reaches_last [OF len pre] r ..
  show ?thesis
    unfolding run
    by (simp add: error_logs_append read_trace_error_logs error_logs_read_events len
        failure_record_def)
qed

theorem read_fails_over_to_last_witness:
  "fails_recoverably (example_env first_down) 0
     (read_request (example_env first_down) (get_consensus_client [''a'', ''b''] None None)
        (validators_endpoint [''7''] None) 0) \<and>
   fst (get_validators_by_ids (example_env first_down)
          (get_consensus_client [''a'', ''b''] None None) [''7''] None [])
     = Inr (JDict [(''data'', JList [])]) \<and>
   error_logs (snd (get_validators_by_ids (example_env first_down)
          (get_consensus_client [''a'', ''b''] None None) [''7''] None []))
     = [(ERROR, ''%s: %s'', [''a'', ''TimeoutError''])]"
proof -
  let ?env = "example_env first_down"
  let ?self = "get_consensus_client [''a'', ''b''] None None"
  have h1: "base_urls ?self \<noteq> []" by (simp add: get_consensus_client_def)
  have h2: "\<forall>j<length (base_urls ?self) - 1.
      fails_recoverably ?env (length (sent_of []) + j)
        (read_request ?env ?self (validators_endpoint [''7''] None) j)"
    by (simp add: get_consensus_client_def fails_recoverably_def example_env_def first_down_def)
  have h3: "net ?env (length (sent_of []) + (length (base_urls ?self) - 1))
           (get_request ?self (urljoin ?env (last (base_urls ?self)) (validators_endpoint [''7''] None)))
         = Inr (JDict [(''data'', JList [])])"
    by (simp add: get_consensus_client_def example_env_def first_down_def)
  show ?thesis
    using read_fails_over_to_last [OF h1 h2 h3]
    by (simp add: get_consensus_client_def example_env_def first_down_def fails_recoverably_def
        error_logs_def)
qed

text \<open>
  C4. With an empty endpoint list \<open>get_validators_by_ids\<close> returns the empty dict: it
  raises nothing, issues no request and logs nothing.
\<close>

theorem read_no_endpoints_returns_empty_dict:
  "get_validators_by_ids env (self\<lparr>base_urls := []\<rparr>) ids sid w = (Inr (JDict []), w)"
  by (simp add: get_validators_by_ids_def async_make_get_request_def)

text \<open>
  C10. With an empty endpoint list \<open>submit_voluntary_exit\<close> returns \<open>None\<close>: it raises
  nothing and issues no request. A submission that the only endpoint accepts returns the
  same value, so the caller cannot tell the two apart.
\<close>

theorem write_no_endpoints_returns_none:
  "submit_voluntary_exit env (self\<lparr>base_urls := []\<rparr>) epoch validator_index signature w
     = (Inr (), w) \<and>
   fst (submit_voluntary_exit (env\<lparr>net := \<lambda>k r. Inr response\<rparr>) (self\<lparr>base_urls := [url]\<rparr>)
          epoch validator_index signature w)
     = fst (submit_voluntary_exit env (self\<lparr>base_urls := []\<rparr>) epoch validator_index signature w)"
  by (simp add: submit_voluntary_exit_def issue_def)

text \<open>
  C5, as the specification states it, fails: on a client constructed with no endpoints
  neither operation reports an error.
\<close>

theorem no_endpoints_reports_error_counterexample:
  "\<not> isl (fst (get_validators_by_ids (example_env all_down) (get_consensus_client [] None None)
               [''100''] None [])) \<and>
   \<not> isl (fst (submit_voluntary_exit (example_env all_down) (get_consensus_client [] None None)
               12345 7 ''0xabc'' []))"
  by (simp add: get_validators_by_ids_def async_make_get_request_def submit_voluntary_exit_def
      get_consensus_client_def)

text \<open>
  C5, amended. A client constructed with an empty endpoint list reports no error when it
  is used: \<open>get_validators_by_ids\<close> returns the empty dict and \<open>submit_voluntary_exit\<close>
  returns \<open>None\<close>, and neither issues a request.
\<close>

theorem no_endpoints_no_error:
  "get_validators_by_ids env (get_consensus_client [] t s) ids sid w = (Inr (JDict []), w) \<and>
   submit_voluntary_exit env (get_consensus_client [] t s) epoch validator_index signature w
     = (Inr (), w)"
  by (simp add: get_validators_by_ids_def async_make_get_request_def submit_voluntary_exit_def
      get_consensus_client_def)

text \<open>
  C3, as the specification states it, fails at the last position: with one endpoint that
  refuses the connection, both operations raise the error and log nothing.
\<close>

theorem last_failure_logged_counterexample:
  "fst (async_make_get_request (example_env all_down) (get_consensus_client [''a''] None None)
          ''/x'' []) = Inl ''ClientConnectorError'' \<and>
   logs_of (snd (async_make_get_request (example_env all_down)
          (get_consensus_client [''a''] None None) ''/x'' [])) = [] \<and>
   fst (submit_voluntary_exit (example_env all_down) (get_consensus_client [''a''] None None)
          12345 7 ''0xabc'' []) = Inl ''ClientConnectorError'' \<and>
   logs_of (snd (submit_voluntary_exit (example_env all_down)
          (get_consensus_client [''a''] None None) 12345 7 ''0xabc'' [])) = []"
  by (simp add: async_make_get_request_def submit_voluntary_exit_def get_consensus_client_def
      example_env_def all_down_def async_json_make_get_request_def issue_def logs_of_append)

text \<open>
  C3, amended. For every recoverable failure of an attempt, of the read or of the write
  operation, at a position other than the last, the endpoint and the error are logged at
  error level right after the request and before the next endpoint is tried. At the last
  position the error is raised to the caller and no record of it is logged.

  In the statement \<open>k\<close> is the position; it is reached when every attempt up to it failed
  recoverably.
\<close>

theorem failure_logged_before_failover:
  "(Suc k < length (base_urls self) \<and>
    (\<forall>j\<le>k. fails_recoverably env (length (sent_of w) + j) (read_request env self ep j))
    \<longrightarrow> (\<exists>pre post.
          snd (async_make_get_request env self ep w) =
            pre @ [Sent (read_request env self ep k),
                   Logged (ERROR, ''%s: %s'',
                     [base_urls self ! k,
                      repr env (projl (net env (length (sent_of w) + k)
                                         (read_request env self ep k)))])]
                @ read_events env self ep (Suc k) @ post
          \<and> length (sent_of pre) = length (sent_of w) + k)) \<and>
   (Suc k < length (base_urls self) \<and>
    (\<forall>j\<le>k. fails_recoverably env (length (sent_of w) + j)
              (write_request env self (voluntary_exit_data epoch vi sig) j))
    \<longrightarrow> (\<exists>pre post.
          snd (submit_voluntary_exit env self epoch vi sig w) =
            pre @ [Sent (write_request env self (voluntary_exit_data epoch vi sig) k),
                   Logged (ERROR, ''%s: %s'',
                     [base_urls self ! k,
                      repr env (projl (net env (length (sent_of w) + k)
                                         (write_request env self (voluntary_exit_data epoch vi sig) k)))])]
                @ write_events env self (voluntary_exit_data epoch vi sig) (Suc k) @ post
          \<and> length (sent_of pre) = length (sent_of w) + k)) \<and>
   (Suc k = length (base_urls self) \<and>
    (\<forall>j\<le>k. fails_recoverably env (length (sent_of w) + j) (read_request env self ep j))
    \<longrightarrow> fst (async_make_get_request env self ep w) =
          net env (length (sent_of w) + k) (read_request env self ep k)
        \<and> (\<exists>pre. snd (async_make_get_request env self ep w) =
                    pre @ [Sent (read_request env self ep k)])
        \<and> length (error_logs (snd (async_make_get_request env self ep w))) =
            length (error_logs w) + k) \<and>
   (Suc k = length (base_urls self) \<and>
    (\<forall>j\<le>k. fails_recoverably env (length (sent_of w) + j)
              (write_request env self (voluntary_exit_data epoch vi sig) j))
    \<longrightarrow> isl (fst (submit_voluntary_exit env self epoch vi sig w))
        \<and> projl (fst (submit_voluntary_exit env self epoch vi sig w)) =
            projl (net env (length (sent_of w) + k)
                     (write_request env self (voluntary_exit_data epoch vi sig) k))
        \<and> (\<exists>pre. snd (submit_voluntary_exit env self epoch vi sig w) =
                    pre @ [Sent (write_request env self (voluntary_exit_data epoch vi sig) k)])
        \<and> length (error_logs (snd (submit_voluntary_exit env self epoch vi sig w))) =
            length (error_logs w) + k)"
proof (intro conjI impI; elim conjE)
  let ?us = "base_urls self"
  let ?F = "failover_trace env ?us (read_events env self ep) (read_request env self ep)
              (length (sent_of w))"
  assume lt: "Suc k < length ?us"
    and fails: "\<forall>j\<le>k. fails_recoverably env (length (sent_of w) + j) (read_request env self ep j)"
  have f': "\<forall>j<Suc k. fails_recoverably env (length (sent_of w) + j) (read_request env self ep j)"
    using fails by (simp add: less_Suc_eq_le)
  have run: "async_make_get_request env self ep w =
      get_loop env self ep ((Suc k, ?us ! Suc k) # enumerate (Suc (Suc k)) (drop (Suc (Suc k)) ?us))
        (w @ ?F (Suc k))"
    unfolding async_make_get_request_def get_loop_skip [OF lt f'] enumerate_drop [OF lt] ..
  obtain ext where "snd (async_make_get_request env self ep w) =
      (w @ ?F (Suc k)) @ get_events self (urljoin env (?us ! Suc k) ep) @ ext"
    unfolding run using get_loop_starts by blast
  then have ext: "snd (async_make_get_request env self ep w) =
      (w @ ?F (Suc k)) @ read_events env self ep (Suc k) @ ext"
    by (simp add: read_events_def)
  obtain dbg where dbg: "read_events env self ep k = dbg @ [Sent (read_request env self ep k)]"
    and nd: "sent_of dbg = []"
    using read_events_split by blast
  let ?pre = "w @ ?F k @ dbg"
  have "snd (async_make_get_request env self ep w) =
      ?pre @ [Sent (read_request env self ep k),
              Logged (ERROR, ''%s: %s'', [?us ! k,
                 repr env (projl (net env (length (sent_of w) + k) (read_request env self ep k)))])]
        @ read_events env self ep (Suc k) @ ext"
    unfolding ext by (simp add: dbg failure_record_def)
  moreover have "length (sent_of ?pre) = length (sent_of w) + k"
    by (simp add: sent_of_append read_trace_count nd)
  ultimately show "\<exists>pre post.
          snd (async_make_get_request env self ep w) =
            pre @ [Sent (read_request env self ep k),
                   Logged (ERROR, ''%s: %s'',
                     [base_urls self ! k,
                      repr env (projl (net env (length (sent_of w) + k)
                                         (read_request env self ep k)))])]
                @ read_events env self ep (Suc k) @ post
          \<and> length (sent_of pre) = length (sent_of w) + k"
    by blast
next
  let ?us = "base_urls self"
  let ?d = "voluntary_exit_data epoch vi sig"
  let ?F = "failover_trace env ?us (write_events env self ?d) (write_request env self ?d)
              (length (sent_of w))"
  assume lt: "Suc k < length ?us"
    and fails: "\<forall>j\<le>k. fails_recoverably env (length (sent_of w) + j) (write_request env self ?d j)"
  have f': "\<forall>j<Suc k. fails_recoverably env (length (sent_of w) + j) (write_request env self ?d j)"
    using fails by (simp add: less_Suc_eq_le)
  have run: "submit_voluntary_exit env self epoch vi sig w =
      submit_loop env self ?d ((Suc k, ?us ! Suc k) # enumerate (Suc (Suc k)) (drop (Suc (Suc k)) ?us))
        (w @ ?F (Suc k))"
    unfolding submit_voluntary_exit_def submit_loop_skip [OF lt f'] enumerate_drop [OF lt] ..
  obtain ext where ext: "snd (submit_voluntary_exit env self epoch vi sig w) =
      (w @ ?F (Suc k)) @ [Sent (post_request (urljoin env (?us ! Suc k) GET_VOLUNTARY_EXITS) ?d)] @ ext"
    unfolding run using submit_loop_starts by blast
  let ?pre = "w @ ?F k"
  have "snd (submit_voluntary_exit env self epoch vi sig w) =
      ?pre @ [Sent (write_request env self ?d k),
              Logged (ERROR, ''%s: %s'', [?us ! k,
                 repr env (projl (net env (length (sent_of w) + k) (write_request env self ?d k)))])]
        @ write_events env self ?d (Suc k) @ ext"
    unfolding ext by (simp add: failure_record_def write_events_def write_request_def)
  moreover have "length (sent_of ?pre) = length (sent_of w) + k"
    by (simp add: sent_of_append write_trace_count)
  ultimately show "\<exists>pre post.
          snd (submit_voluntary_exit env self epoch vi sig w) =
            pre @ [Sent (write_request env self ?d k),
                   Logged (ERROR, ''%s: %s'',
                     [base_urls self ! k,
                      repr env (projl (net env (length (sent_of w) + k)
                                         (write_request env self ?d k)))])]
                @ write_events env self ?d (Suc k) @ post
          \<and> length (sent_of pre) = length (sent_of w) + k"
    by blast
next
  assume len: "Suc k = length (base_urls self)"
    and fails: "\<forall>j\<le>k. fails_recoverably env (length (sent_of w) + j) (read_request env self ep j)"
  have f': "\<forall>j<k. fails_recoverably env (length (sent_of w) + j) (read_request env self ep j)"
    using fails by simp
  note run = async_make_get_request_reaches_last [OF len [symmetric] f']
  show "fst (async_make_get_request env self ep w) =
          net env (length (sent_of w) + k) (read_request env self ep k)"
    unfolding run by simp
next
  assume len: "Suc k = length (base_urls self)"
    and fails: "\<forall>j\<le>k. fails_recoverably env (length (sent_of w) + j) (read_request env self ep j)"
  have f': "\<forall>j<k. fails_recoverably env (length (sent_of w) + j) (read_request env self ep j)"
    using fails by simp
  note run = async_make_get_request_reaches_last [OF len [symmetric] f']
  obtain dbg where dbg: "read_events env self ep k = dbg @ [Sent (read_request env self ep k)]"
    using read_events_split by blast
  show "\<exists>pre. snd (async_make_get_request env self ep w) = pre @ [Sent (read_request env self ep k)]"
    unfolding run by (simp add: dbg)
next
  assume len: "Suc k = length (base_urls self)"
    and fails: "\<forall>j\<le>k. fails_recoverably env (length (sent_of w) + j) (read_request env self ep j)"
  have f': "\<forall>j<k. fails_recoverably env (length (sent_of w) + j) (read_request env self ep j)"
    using fails by simp
  note run = async_make_get_request_reaches_last [OF len [symmetric] f']
  show "length (error_logs (snd (async_make_get_request env self ep w))) = length (error_logs w) + k"
    unfolding run by (simp add: error_logs_append read_trace_error_logs error_logs_read_events)
next
  let ?d = "voluntary_exit_data epoch vi sig"
  assume len: "Suc k = length (base_urls self)"
    and fails: "\<forall>j\<le>k. fails_recoverably env (length (sent_of w) + j) (write_request env self ?d j)"
  have f': "\<forall>j<k. fails_recoverably env (length (sent_of w) + j) (write_request env self ?d j)"
    using fails by simp
  have fk: "fails_recoverably env (length (sent_of w) + k) (write_request env self ?d k)"
    using fails by simp
  note run = submit_voluntary_exit_reaches_last [OF len [symmetric] f']
  show "isl (fst (submit_voluntary_exit env self epoch vi sig w))"
    using fk unfolding run by (simp add: fails_recoverably_def split: sum.splits)
  show "projl (fst (submit_voluntary_exit env self epoch vi sig w)) =
        projl (net env (length (sent_of w) + k) (write_request env self ?d k))"
    using fk unfolding run by (simp add: fails_recoverably_def split: sum.splits)
  show "\<exists>pre. snd (submit_voluntary_exit env self epoch vi sig w) =
          pre @ [Sent (write_request env self ?d k)]"
    unfolding run by (simp add: write_events_def)
  show "length (error_logs (snd (submit_voluntary_exit env self epoch vi sig w))) =
        length (error_logs w) + k"
    unfolding run by (simp add: error_logs_append write_trace_error_logs error_logs_write_events)
qed

text \<open>
  Two endpoints that refuse the connection. The read operation logs the failure of the
  first right after its request and then tries the second; the write operation ends
  with its request to the second and raises that endpoint's error.
\<close>

theorem failure_logged_before_failover_witness:
  "(\<exists>pre post.
      snd (async_make_get_request (example_env all_down)
             (get_consensus_client [''a'', ''b''] None None) ''/x'' []) =
        pre @ [Sent (web3_get_request ''a/x'' 60),
               Logged (ERROR, ''%s: %s'', [''a'', ''ClientConnectorError''])]
            @ [Sent (web3_get_request ''b/x'' 60)] @ post
      \<and> length (sent_of pre) = 0) \<and>
   isl (fst (submit_voluntary_exit (example_env all_down)
               (get_consensus_client [''a'', ''b''] None None) 12345 7 ''0xabc'' [])) \<and>
   projl (fst (submit_voluntary_exit (example_env all_down)
                 (get_consensus_client [''a'', ''b''] None None) 12345 7 ''0xabc'' []))
     = ''ClientConnectorError'' \<and>
   (\<exists>pre.
      snd (submit_voluntary_exit (example_env all_down)
             (get_consensus_client [''a'', ''b''] None None) 12345 7 ''0xabc'' []) =
        pre @ [Sent (post_request (''b'' @ GET_VOLUNTARY_EXITS)
                       (voluntary_exit_data 12345 7 ''0xabc''))]) \<and>
   length (error_logs (snd (submit_voluntary_exit (example_env all_down)
             (get_consensus_client [''a'', ''b''] None None) 12345 7 ''0xabc'' []))) = 1"
proof -
  let ?env = "example_env all_down"
  let ?self = "get_consensus_client [''a'', ''b''] None None"
  let ?d = "voluntary_exit_data 12345 7 ''0xabc''"
  have r: "Suc 0 < length (base_urls ?self) \<and>
      (\<forall>j\<le>0. fails_recoverably ?env (length (sent_of []) + j) (read_request ?env ?self ''/x'' j))"
    by (simp add: get_consensus_client_def fails_recoverably_def example_env_def all_down_def)
  have w: "Suc 1 = length (base_urls ?self) \<and>
      (\<forall>j\<le>1. fails_recoverably ?env (length (sent_of []) + j) (write_request ?env ?self ?d j))"
    by (simp add: get_consensus_client_def fails_recoverably_def example_env_def all_down_def)
  note R = failure_logged_before_failover
    [of 0 ?self ?env "[]" "''/x''" 12345 7 "''0xabc''", THEN conjunct1, THEN mp, OF r]
  note W = failure_logged_before_failover
    [of 1 ?self ?env "[]" "''/x''" 12345 7 "''0xabc''",
      THEN conjunct2, THEN conjunct2, THEN conjunct2, THEN mp, OF w]
  have R': "\<exists>pre post.
      snd (async_make_get_request ?env ?self ''/x'' []) =
        pre @ [Sent (web3_get_request ''a/x'' 60),
               Logged (ERROR, ''%s: %s'', [''a'', ''ClientConnectorError''])]
            @ [Sent (web3_get_request ''b/x'' 60)] @ post
      \<and> length (sent_of pre) = 0"
    using R
    by (simp add: get_consensus_client_def example_env_def all_down_def read_request_def
        read_events_def get_request_def get_events_def)
  show ?thesis
    using R' W
    by (simp add: get_consensus_client_def example_env_def all_down_def write_request_def
        error_logs_def)
qed

text \<open>
  C6. The read operation hands the configured timeout to every request, on both of its
  paths (lemma \<open>get_request_fields\<close>). The write operation does not: with a client
  constructed with a timeout of 10 seconds, the POST of \<open>submit_voluntary_exit\<close> carries
  no timeout, while the GET of \<open>get_validators_by_ids\<close> on the same client carries 10.
\<close>

theorem write_request_without_timeout:
  "map timeout_arg (sent_of (snd (submit_voluntary_exit (example_env all_up)
      (get_consensus_client [''a''] (Some 10) None) 12345 7 ''0xabc'' []))) = [None] \<and>
   map timeout_arg (sent_of (snd (get_validators_by_ids (example_env all_up)
      (get_consensus_client [''a''] (Some 10) None) [''7''] None []))) = [Some 10]"
  by (simp add: submit_voluntary_exit_def get_validators_by_ids_def async_make_get_request_def
      get_consensus_client_def example_env_def all_up_def issue_def post_request_def
      async_json_make_get_request_def web3_get_request_def)

text \<open>
  C7. For the identifiers \<open>["100", "200"]\<close> and the default state reference the path is
  \<open>/eth/v1/beacon/states/head/validators?id=100&id=200\<close>, and the first request
  \<open>get_validators_by_ids\<close> issues is a GET whose URI joins the first endpoint of the list
  with that path.
\<close>

theorem validators_request_to_primary_first:
  assumes "base_urls self \<noteq> []"
  shows "validators_endpoint [''100'', ''200''] None
           = ''/eth/v1/beacon/states/head/validators?id=100&id=200'' \<and>
         (\<exists>r rest.
            sent_of (snd (get_validators_by_ids env self [''100'', ''200''] None w))
              = sent_of w @ r # rest \<and>
            verb r = GET \<and>
            uri r = urljoin env (hd (base_urls self))
                      ''/eth/v1/beacon/states/head/validators?id=100&id=200'')"
proof -
  let ?ep = "''/eth/v1/beacon/states/head/validators?id=100&id=200''"
  have ep: "validators_endpoint [''100'', ''200''] None = ?ep"
    by (simp add: validators_endpoint_def GET_VALIDATORS_format_def)
  from assms obtain u us where us: "base_urls self = u # us"
    by (cases "base_urls self") simp_all
  let ?r = "get_request self (urljoin env u ?ep)"
  obtain ext where "snd (get_validators_by_ids env self [''100'', ''200''] None w)
      = w @ get_events self (urljoin env u ?ep) @ ext"
    unfolding get_validators_by_ids_def async_make_get_request_def ep us
    using get_loop_starts [of env self ?ep 0 u "enumerate (Suc 0) us" w] by auto
  then have "sent_of (snd (get_validators_by_ids env self [''100'', ''200''] None w))
      = sent_of w @ ?r # sent_of ext"
    using sent_of_read_events [of env self ?ep 0]
    by (simp add: sent_of_append read_events_def read_request_def us)
  moreover have "verb ?r = GET" "uri ?r = urljoin env (hd (base_urls self)) ?ep"
    by (simp_all add: get_request_fields us)
  ultimately show ?thesis using ep by blast
qed

theorem validators_request_to_primary_first_witness:
  "base_urls (get_consensus_client [''http://n1'', ''http://n2''] None None) \<noteq> [] \<and>
   uri (hd (sent_of (snd (get_validators_by_ids (example_env all_up)
      (get_consensus_client [''http://n1'', ''http://n2''] None None) [''100'', ''200''] None []))))
     = ''http://n1/eth/v1/beacon/states/head/validators?id=100&id=200''"
proof -
  let ?self = "get_consensus_client [''http://n1'', ''http://n2''] None None"
  have h: "base_urls ?self \<noteq> []" by (simp add: get_consensus_client_def)
  from validators_request_to_primary_first [OF h, of "example_env all_up" "[]"]
  obtain r rest where
    "sent_of (snd (get_validators_by_ids (example_env all_up) ?self [''100'', ''200''] None []))
       = sent_of [] @ r # rest"
    "uri r = urljoin (example_env all_up) (hd (base_urls ?self))
               ''/eth/v1/beacon/states/head/validators?id=100&id=200''"
    by blast
  then show ?thesis
    using h by (simp add: example_env_def get_consensus_client_def)
qed

text \<open>
  C9. Every validator status belongs to exactly one of \<open>PENDING_STATUSES\<close>,
  \<open>ACTIVE_STATUSES\<close> and \<open>EXITED_STATUSES\<close>, and the three lists together hold every
  member of the enumeration, which has nine members with nine different values.
\<close>

theorem status_groups_partition:
  "length (filter (\<lambda>group. s \<in> set group)
             [PENDING_STATUSES, ACTIVE_STATUSES, EXITED_STATUSES]) = 1 \<and>
   set PENDING_STATUSES \<union> set ACTIVE_STATUSES \<union> set EXITED_STATUSES = UNIV \<and>
   set (PENDING_STATUSES @ ACTIVE_STATUSES @ EXITED_STATUSES) = set ValidatorStatus_members \<and>
   distinct (PENDING_STATUSES @ ACTIVE_STATUSES @ EXITED_STATUSES) \<and>
   length ValidatorStatus_members = 9 \<and>
   distinct (map status_value ValidatorStatus_members)"
proof -
  have one: "length (filter (\<lambda>group. s \<in> set group)
             [PENDING_STATUSES, ACTIVE_STATUSES, EXITED_STATUSES]) = 1"
    by (cases s) (simp_all add: PENDING_STATUSES_def ACTIVE_STATUSES_def EXITED_STATUSES_def)
  have "\<And>x. x \<in> set PENDING_STATUSES \<union> set ACTIVE_STATUSES \<union> set EXITED_STATUSES"
  proof -
    fix x show "x \<in> set PENDING_STATUSES \<union> set ACTIVE_STATUSES \<union> set EXITED_STATUSES"
      by (cases x) (simp_all add: PENDING_STATUSES_def ACTIVE_STATUSES_def EXITED_STATUSES_def)
  qed
  then have univ: "set PENDING_STATUSES \<union> set ACTIVE_STATUSES \<union> set EXITED_STATUSES = UNIV"
    by blast
  have same: "set (PENDING_STATUSES @ ACTIVE_STATUSES @ EXITED_STATUSES) = set ValidatorStatus_members"
    by (simp add: PENDING_STATUSES_def ACTIVE_STATUSES_def EXITED_STATUSES_def
        ValidatorStatus_members_def)
  have dist: "distinct (PENDING_STATUSES @ ACTIVE_STATUSES @ EXITED_STATUSES)"
    by (simp add: PENDING_STATUSES_def ACTIVE_STATUSES_def EXITED_STATUSES_def)
  have nine: "length ValidatorStatus_members = 9"
    by (simp add: ValidatorStatus_members_def)
  have vals: "distinct (map status_value ValidatorStatus_members)"
    by (simp add: ValidatorStatus_members_def)
  from one univ same dist nine vals show ?thesis by blast
qed

text \<open>
  C8. Every request \<open>submit_voluntary_exit\<close> issues is a POST whose JSON body is
  \<open>{"message": {"epoch": str(epoch), "validator_index": str(validator_index)},
  "signature": signature}\<close>, with the signature as given; at least one is issued when there
  is an endpoint. \<open>str(epoch)\<close> and \<open>str(validator_index)\<close> are the decimal writings of
  the two integers: never empty, digits only after an optional minus sign, no leading
  zero (zero itself is written \<open>0\<close>), and denoting the integer, so that \<open>int\<close> reads
  the integer back.
\<close>

theorem voluntary_exit_body:
  "(\<forall>r\<in>set (drop (length (sent_of w))
              (sent_of (snd (submit_voluntary_exit env self epoch validator_index signature w)))).
      verb r = POST \<and>
      json_body r =
        Some (JDict [(''message'', JDict [(''epoch'', JStr (str_int epoch)),
                                          (''validator_index'', JStr (str_int validator_index))]),
                     (''signature'', JStr signature)])) \<and>
   (base_urls self \<noteq> [] \<longrightarrow>
      drop (length (sent_of w))
        (sent_of (snd (submit_voluntary_exit env self epoch validator_index signature w))) \<noteq> []) \<and>
   decimal_of_int epoch (str_int epoch) \<and>
   decimal_of_int validator_index (str_int validator_index) \<and>
   str_int epoch \<noteq> [] \<and>
   str_int validator_index \<noteq> [] \<and>
   int_of_str (str_int epoch) = Some epoch \<and>
   int_of_str (str_int validator_index) = Some validator_index \<and>
   (0 \<le> epoch \<longrightarrow> list_all is_digit (str_int epoch)) \<and>
   (0 \<le> validator_index \<longrightarrow> list_all is_digit (str_int validator_index))"
proof -
  let ?d = "voluntary_exit_data epoch validator_index signature"
  let ?run = "submit_voluntary_exit env self epoch validator_index signature w"
  obtain ext where ext: "snd ?run = w @ ext"
    and all: "\<forall>r\<in>set (sent_of ext). verb r = POST \<and> json_body r = Some ?d"
    unfolding submit_voluntary_exit_def using submit_loop_requests by blast
  have dr: "drop (length (sent_of w)) (sent_of (snd ?run)) = sent_of ext"
    by (simp add: ext sent_of_append)
  have body: "\<forall>r\<in>set (drop (length (sent_of w)) (sent_of (snd ?run))).
      verb r = POST \<and>
      json_body r =
        Some (JDict [(''message'', JDict [(''epoch'', JStr (str_int epoch)),
                                          (''validator_index'', JStr (str_int validator_index))]),
                     (''signature'', JStr signature)])"
    unfolding dr using all by (simp add: voluntary_exit_data_def)
  have some: "base_urls self \<noteq> [] \<longrightarrow> drop (length (sent_of w)) (sent_of (snd ?run)) \<noteq> []"
  proof
    assume "base_urls self \<noteq> []"
    then obtain u us where us: "base_urls self = u # us" by (cases "base_urls self") simp_all
    obtain e where "snd ?run = w @ [Sent (post_request (urljoin env u GET_VOLUNTARY_EXITS) ?d)] @ e"
      unfolding submit_voluntary_exit_def us
      using submit_loop_starts [of env self ?d 0 u "enumerate (Suc 0) us" w] by auto
    then show "drop (length (sent_of w)) (sent_of (snd ?run)) \<noteq> []"
      by (simp add: sent_of_append)
  qed
  have dig: "\<And>i. 0 \<le> i \<longrightarrow> list_all is_digit (str_int i)"
    by (simp add: str_int_def str_nat_digits)
  have ne: "\<And>i. str_int i \<noteq> []"
    by (simp add: str_int_def str_nat_digits)
  from body some dig ne show ?thesis
    by (simp add: int_of_str_str_int decimal_of_int_str_int)
qed

text \<open>
  The message of the specification, epoch 12345 and index 7, and the message with epoch 0
  and index 0, each sent to one endpoint that answers.
\<close>

theorem voluntary_exit_body_witness:
  "map json_body (sent_of (snd (submit_voluntary_exit (example_env all_up)
      (get_consensus_client [''a''] None None) 12345 7 ''0xabc'' [])))
   = [Some (JDict [(''message'', JDict [(''epoch'', JStr ''12345''),
                                        (''validator_index'', JStr ''7'')]),
                   (''signature'', JStr ''0xabc'')])] \<and>
   map json_body (sent_of (snd (submit_voluntary_exit (example_env all_up)
      (get_consensus_client [''a''] None None) 0 0 ''0xabc'' [])))
   = [Some (JDict [(''message'', JDict [(''epoch'', JStr ''0''),
                                        (''validator_index'', JStr ''0'')]),
                   (''signature'', JStr ''0xabc'')])]"
proof -
  let ?env = "example_env all_up"
  let ?self = "get_consensus_client [''a''] None None"
  let ?run = "submit_voluntary_exit ?env ?self 12345 7 ''0xabc'' []"
  let ?zrun = "submit_voluntary_exit ?env ?self 0 0 ''0xabc'' []"
  have e: "str_int 12345 = ''12345''"
    by (simp add: str_int_def str_nat_small str_nat_large digit_char_def)
  have v: "str_int 7 = ''7''"
    by (simp add: str_int_def str_nat_small str_nat_large digit_char_def)
  have z: "str_int 0 = ''0''"
    by (simp add: str_int_def str_nat_small digit_char_def)
  have one: "sent_of (snd ?run) = [post_request (''a'' @ GET_VOLUNTARY_EXITS)
                                     (voluntary_exit_data 12345 7 ''0xabc'')]"
    by (simp add: submit_voluntary_exit_def get_consensus_client_def example_env_def all_up_def
        issue_def)
  have one0: "sent_of (snd ?zrun) = [post_request (''a'' @ GET_VOLUNTARY_EXITS)
                                     (voluntary_exit_data 0 0 ''0xabc'')]"
    by (simp add: submit_voluntary_exit_def get_consensus_client_def example_env_def all_up_def
        issue_def)
  have "\<forall>r\<in>set (sent_of (snd ?run)).
      json_body r = Some (JDict [(''message'', JDict [(''epoch'', JStr ''12345''),
                                        (''validator_index'', JStr ''7'')]),
                   (''signature'', JStr ''0xabc'')])"
    using voluntary_exit_body [of "[]" ?env ?self 12345 7 "''0xabc''", THEN conjunct1]
    unfolding e v by simp
  then have a: "map json_body (sent_of (snd ?run))
      = [Some (JDict [(''message'', JDict [(''epoch'', JStr ''12345''),
                                           (''validator_index'', JStr ''7'')]),
                      (''signature'', JStr ''0xabc'')])]"
    unfolding one by simp
  have "\<forall>r\<in>set (sent_of (snd ?zrun)).
      json_body r = Some (JDict [(''message'', JDict [(''epoch'', JStr ''0''),
                                        (''validator_index'', JStr ''0'')]),
                   (''signature'', JStr ''0xabc'')])"
    using voluntary_exit_body [of "[]" ?env ?self 0 0 "''0xabc''", THEN conjunct1]
    unfolding z by simp
  then have b: "map json_body (sent_of (snd ?zrun))
      = [Some (JDict [(''message'', JDict [(''epoch'', JStr ''0''),
                                           (''validator_index'', JStr ''0'')]),
                      (''signature'', JStr ''0xabc'')])]"
    unfolding one0 by simp
  from a b show ?thesis by blast
qed

end
